theory Spec2Isabelle
  imports Main "HOL-Library.Word"
begin

unbundle bit_operations_syntax

section \<open>The password generator \<open>pwgen.py\<close>\<close>

text \<open>
  The program is one function, \<open>pwgen()\<close>: it reads \<open>wordlist.txt\<close>, draws four words,
  hashes the phrase, draws fifteen characters of the digest, capitalises one letter, adds a
  symbol and prints the result in blocks of four. The embedding follows it line by line.
  The local variables that the program assigns twice (\<open>pi\<close>, \<open>left\<close>, \<open>right\<close>, \<open>pw\<close>) get
  one name per assignment.
\<close>

subsection \<open>Python strings\<close>

text \<open>
  A Python \<open>str\<close> is a sequence of Unicode code points and \<open>len\<close> counts code points, so a
  string is a list of numbers. \<open>str\<close> turns a literal of the source into that form.
  Python's integers are \<open>int\<close>.
\<close>

type_synonym pystr = "nat list"

definition str :: "string \<Rightarrow> pystr" where
  "str s = map of_char s"

datatype error = OSError | IndexError | ValueError | UnicodeEncodeError

definition len :: "'a list \<Rightarrow> int" where
  "len s = int (length s)"

text \<open>
  Slices never raise: a negative bound counts from the end and every bound is clipped to
  the string. \<open>slice_to s j\<close> is \<open>s[:j]\<close>, \<open>slice_from s i\<close> is \<open>s[i:]\<close> and
  \<open>slice s i j\<close> is \<open>s[i:j]\<close>.
\<close>

definition clip :: "'a list \<Rightarrow> int \<Rightarrow> nat" where
  "clip s i = (if i < 0 then nat (max 0 (len s + i)) else nat (min i (len s)))"

definition slice_to :: "'a list \<Rightarrow> int \<Rightarrow> 'a list" where
  "slice_to s j = take (clip s j) s"

definition slice_from :: "'a list \<Rightarrow> int \<Rightarrow> 'a list" where
  "slice_from s i = drop (clip s i) s"

definition slice :: "'a list \<Rightarrow> int \<Rightarrow> int \<Rightarrow> 'a list" where
  "slice s i j = drop (clip s i) (take (clip s j) s)"

text \<open>\<open>s[i]\<close> raises IndexError out of range; on a string it gives a string of one character.\<close>

definition getitem :: "'a list \<Rightarrow> int \<Rightarrow> error + 'a" where
  "getitem s i =
     (let j = (if i < 0 then len s + i else i)
      in if 0 \<le> j \<and> j < len s then Inr (s ! nat j) else Inl IndexError)"

definition getchar :: "pystr \<Rightarrow> int \<Rightarrow> error + pystr" where
  "getchar s i = (case getitem s i of Inl e \<Rightarrow> Inl e | Inr c \<Rightarrow> Inr [c])"

text \<open>\<open>s.index(c)\<close> for a string \<open>c\<close> of one character: the first position, or ValueError.\<close>

fun index :: "pystr \<Rightarrow> nat \<Rightarrow> error + int" where
  "index [] c = Inl ValueError"
| "index (x # xs) c =
     (if x = c then Inr 0
      else case index xs c of Inl e \<Rightarrow> Inl e | Inr i \<Rightarrow> Inr (i + 1))"

text \<open>\<open>sep.join(xs)\<close>.\<close>

fun join :: "pystr \<Rightarrow> pystr list \<Rightarrow> pystr" where
  "join sep [] = []"
| "join sep [x] = x"
| "join sep (x # y # ys) = x @ sep @ join sep (y # ys)"

text \<open>
  \<open>s.rstrip()\<close> removes the trailing characters that \<open>str.isspace\<close> accepts; the table is
  CPython's list of whitespace code points.
\<close>

definition isspace :: "nat \<Rightarrow> bool" where
  "isspace c \<longleftrightarrow>
     (9 \<le> c \<and> c \<le> 13) \<or> (28 \<le> c \<and> c \<le> 32) \<or> c = 133 \<or> c = 160 \<or> c = 5760 \<or>
     (8192 \<le> c \<and> c \<le> 8202) \<or> c = 8232 \<or> c = 8233 \<or> c = 8239 \<or> c = 8287 \<or> c = 12288"

definition rstrip :: "pystr \<Rightarrow> pystr" where
  "rstrip s = rev (dropWhile isspace (rev s))"

text \<open>
  \<open>c.upper()\<close> for one character. Only the ASCII letters are modelled (other code points are
  returned as they are, which is not Python's full case mapping): the program calls
  \<open>upper\<close> on a character of \<open>capl\<close> only.
\<close>

definition upper_char :: "nat \<Rightarrow> nat" where
  "upper_char c = (if 97 \<le> c \<and> c \<le> 122 then c - 32 else c)"

definition upper :: "pystr \<Rightarrow> pystr" where
  "upper s = map upper_char s"

text \<open>
  For the statements about the password: whether a character is an uppercase ASCII letter,
  and the lowercase of such a letter.
\<close>

definition isupper_char :: "nat \<Rightarrow> bool" where
  "isupper_char c \<longleftrightarrow> 65 \<le> c \<and> c \<le> 90"

definition lower_char :: "nat \<Rightarrow> nat" where
  "lower_char c = (if 65 \<le> c \<and> c \<le> 90 then c + 32 else c)"

text \<open>\<open>range(start, stop, step)\<close> for a positive step, by the number of its elements.\<close>

definition range3 :: "int \<Rightarrow> int \<Rightarrow> int \<Rightarrow> int list" where
  "range3 start stop step =
     map (\<lambda>k. start + int k * step) [0 ..< nat ((stop - start + step - 1) div step)]"

subsection \<open>The constants of \<open>pwgen\<close>\<close>

definition capl :: pystr where
  "capl = str ''acdefghjklmnpqrstuvwxyz''"

definition symbols :: pystr where
  "symbols = str ''=-!$%^&*(){}[]''"

subsection \<open>\<open>str.encode\<close> and \<open>hashlib.sha256\<close>\<close>

text \<open>
  \<open>phrase.encode()\<close> is the UTF-8 encoding; it raises UnicodeEncodeError on a surrogate
  (\<open>0xD800\<close> to \<open>0xDFFF\<close>). A number from \<open>0x110000\<close> on is no code point of a Python string;
  the model rejects it as well.
\<close>

type_synonym byte = "8 word"
type_synonym u32 = "32 word"

definition utf8_char :: "nat \<Rightarrow> error + byte list" where
  "utf8_char c =
     (if c < 0x80 then Inr [of_nat c]
      else if c < 0x800 then Inr [of_nat (0xC0 + c div 64), of_nat (0x80 + c mod 64)]
      else if 0xD800 \<le> c \<and> c \<le> 0xDFFF then Inl UnicodeEncodeError
      else if c < 0x10000 then
        Inr [of_nat (0xE0 + c div 4096), of_nat (0x80 + c div 64 mod 64),
             of_nat (0x80 + c mod 64)]
      else if c < 0x110000 then
        Inr [of_nat (0xF0 + c div 262144), of_nat (0x80 + c div 4096 mod 64),
             of_nat (0x80 + c div 64 mod 64), of_nat (0x80 + c mod 64)]
      else Inl UnicodeEncodeError)"

fun encode :: "pystr \<Rightarrow> error + byte list" where
  "encode [] = Inr []"
| "encode (c # cs) =
     (case utf8_char c of
        Inl e \<Rightarrow> Inl e
      | Inr bs \<Rightarrow> (case encode cs of Inl e \<Rightarrow> Inl e | Inr rest \<Rightarrow> Inr (bs @ rest)))"

text \<open>
  Modelled from the spec: \<open>hashlib.sha256(...).hexdigest()\<close> is library code and not part of
  the repository's source. The spec names it: "compute SHA-256; render as lowercase
  hexadecimal (64 characters, alphabet 0-9a-f)". The definitions below are SHA-256 as
  FIPS 180-4 gives it: the padding, the message schedule, the 64 rounds of the compression
  function, and the digest written as two lowercase hexadecimal digits per byte.
\<close>

text \<open>The 64 round constants, eight to a row (rounds 0 to 7, 8 to 15, and so on).\<close>

definition K :: "u32 list" where
  "K =
     [0x428a2f98, 0x71374491, 0xb5c0fbcf, 0xe9b5dba5, 0x3956c25b, 0x59f111f1, 0x923f82a4, 0xab1c5ed5] @
     [0xd807aa98, 0x12835b01, 0x243185be, 0x550c7dc3, 0x72be5d74, 0x80deb1fe, 0x9bdc06a7, 0xc19bf174] @
     [0xe49b69c1, 0xefbe4786, 0x0fc19dc6, 0x240ca1cc, 0x2de92c6f, 0x4a7484aa, 0x5cb0a9dc, 0x76f988da] @
     [0x983e5152, 0xa831c66d, 0xb00327c8, 0xbf597fc7, 0xc6e00bf3, 0xd5a79147, 0x06ca6351, 0x14292967] @
     [0x27b70a85, 0x2e1b2138, 0x4d2c6dfc, 0x53380d13, 0x650a7354, 0x766a0abb, 0x81c2c92e, 0x92722c85] @
     [0xa2bfe8a1, 0xa81a664b, 0xc24b8b70, 0xc76c51a3, 0xd192e819, 0xd6990624, 0xf40e3585, 0x106aa070] @
     [0x19a4c116, 0x1e376c08, 0x2748774c, 0x34b0bcb5, 0x391c0cb3, 0x4ed8aa4a, 0x5b9cca4f, 0x682e6ff3] @
     [0x748f82ee, 0x78a5636f, 0x84c87814, 0x8cc70208, 0x90befffa, 0xa4506ceb, 0xbef9a3f7, 0xc67178f2]"

type_synonym hash_state = "u32 \<times> u32 \<times> u32 \<times> u32 \<times> u32 \<times> u32 \<times> u32 \<times> u32"

definition H0 :: hash_state where
  "H0 = (0x6a09e667, 0xbb67ae85, 0x3c6ef372, 0xa54ff53a,
         0x510e527f, 0x9b05688c, 0x1f83d9ab, 0x5be0cd19)"

definition Ch :: "u32 \<Rightarrow> u32 \<Rightarrow> u32 \<Rightarrow> u32" where
  "Ch x y z = (x AND y) XOR (NOT x AND z)"

definition Maj :: "u32 \<Rightarrow> u32 \<Rightarrow> u32 \<Rightarrow> u32" where
  "Maj x y z = (x AND y) XOR (x AND z) XOR (y AND z)"

definition Sigma0 :: "u32 \<Rightarrow> u32" where
  "Sigma0 x = word_rotr 2 x XOR word_rotr 13 x XOR word_rotr 22 x"

definition Sigma1 :: "u32 \<Rightarrow> u32" where
  "Sigma1 x = word_rotr 6 x XOR word_rotr 11 x XOR word_rotr 25 x"

definition sigma0 :: "u32 \<Rightarrow> u32" where
  "sigma0 x = word_rotr 7 x XOR word_rotr 18 x XOR drop_bit 3 x"

definition sigma1 :: "u32 \<Rightarrow> u32" where
  "sigma1 x = word_rotr 17 x XOR word_rotr 19 x XOR drop_bit 10 x"

text \<open>
  The padding: the byte \<open>0x80\<close>, zero bytes up to 56 modulo 64, and the length of the
  message in bits as 8 bytes, most significant first.
\<close>

definition be_bytes :: "nat \<Rightarrow> 'a::len word \<Rightarrow> byte list" where
  "be_bytes k w = map (\<lambda>i. ucast (drop_bit (8 * (k - 1 - i)) w)) [0 ..< k]"

definition pad :: "byte list \<Rightarrow> byte list" where
  "pad m = m @ [0x80] @ replicate ((119 - length m mod 64) mod 64) 0
             @ be_bytes 8 (8 * (of_nat (length m) :: 64 word))"

definition be32 :: "byte list \<Rightarrow> u32" where
  "be32 bs = foldl (\<lambda>w b. push_bit 8 w OR ucast b) 0 bs"

definition block_words :: "byte list \<Rightarrow> u32 list" where
  "block_words blk = map (\<lambda>k. be32 (take 4 (drop (4 * k) blk))) [0 ..< 16]"

definition schedule :: "u32 list \<Rightarrow> u32 list" where
  "schedule ws =
     fold (\<lambda>t w. w @ [sigma1 (w ! (t - 2)) + w ! (t - 7) + sigma0 (w ! (t - 15)) + w ! (t - 16)])
       [16 ..< 64] ws"

text \<open>One round of the compression function, with the round constant and the schedule word.\<close>

fun round :: "u32 \<Rightarrow> u32 \<Rightarrow> hash_state \<Rightarrow> hash_state" where
  "round k w (a, b, c, d, e, f, g, h) =
     (h + Sigma1 e + Ch e f g + k + w + (Sigma0 a + Maj a b c), a, b, c,
      d + (h + Sigma1 e + Ch e f g + k + w), e, f, g)"

fun rounds :: "u32 list \<Rightarrow> u32 list \<Rightarrow> hash_state \<Rightarrow> hash_state" where
  "rounds (k # ks) (w # ws) s = rounds ks ws (round k w s)"
| "rounds ks ws s = s"

fun add_state :: "hash_state \<Rightarrow> hash_state \<Rightarrow> hash_state" where
  "add_state (a, b, c, d, e, f, g, h) (a', b', c', d', e', f', g', h') =
     (a + a', b + b', c + c', d + d', e + e', f + f', g + g', h + h')"

definition compress :: "hash_state \<Rightarrow> byte list \<Rightarrow> hash_state" where
  "compress s blk = add_state s (rounds K (schedule (block_words blk)) s)"

definition blocks64 :: "byte list \<Rightarrow> byte list list" where
  "blocks64 p = map (\<lambda>k. take 64 (drop (64 * k) p)) [0 ..< length p div 64]"

fun hash_blocks :: "hash_state \<Rightarrow> byte list list \<Rightarrow> hash_state" where
  "hash_blocks s [] = s"
| "hash_blocks s (blk # blks) = hash_blocks (compress s blk) blks"

definition sha256 :: "byte list \<Rightarrow> hash_state" where
  "sha256 m = hash_blocks H0 (blocks64 (pad m))"

definition digest :: "hash_state \<Rightarrow> byte list" where
  "digest s =
     (case s of (a, b, c, d, e, f, g, h) \<Rightarrow>
        concat (map (be_bytes 4) [a, b, c, d, e, f, g, h]))"

definition hexdigits :: pystr where
  "hexdigits = str ''0123456789abcdef''"

definition hex_byte :: "byte \<Rightarrow> pystr" where
  "hex_byte b = [hexdigits ! unat (drop_bit 4 b), hexdigits ! unat (b AND 15)]"

definition hexdigest :: "hash_state \<Rightarrow> pystr" where
  "hexdigest s = concat (map hex_byte (digest s))"

subsection \<open>The steps of \<open>pwgen\<close> that use no randomness\<close>

text \<open>
  \<open>wl.readlines()\<close>: the lines of the text, each with its newline. The text is what Python
  read from the file in text mode, so every line ending is already the one character 10.
\<close>

fun readlines_from :: "pystr \<Rightarrow> pystr \<Rightarrow> pystr list" where
  "readlines_from cur [] = (if cur = [] then [] else [cur])"
| "readlines_from cur (c # cs) =
     (if c = 10 then (cur @ [c]) # readlines_from [] cs else readlines_from (cur @ [c]) cs)"

definition readlines :: "pystr \<Rightarrow> pystr list" where
  "readlines txt = readlines_from [] txt"

text \<open>A list comprehension whose element expression can raise: the first error ends it.\<close>

fun collect :: "('a \<Rightarrow> error + 'b) \<Rightarrow> 'a list \<Rightarrow> error + 'b list" where
  "collect f [] = Inr []"
| "collect f (x # xs) =
     (case f x of
        Inl e \<Rightarrow> Inl e
      | Inr y \<Rightarrow> (case collect f xs of Inl e \<Rightarrow> Inl e | Inr ys \<Rightarrow> Inr (y # ys)))"

text \<open>
  Lines 54 and 57: \<open>phrase = " ".join(words)\<close> and
  \<open>hphrase = hashlib.sha256(phrase.encode()).hexdigest()\<close>.
\<close>

definition phrase_of :: "pystr list \<Rightarrow> pystr" where
  "phrase_of ws = join (str '' '') ws"

definition hash_phrase :: "pystr \<Rightarrow> error + pystr" where
  "hash_phrase p =
     (case encode p of Inl e \<Rightarrow> Inl e | Inr bytes \<Rightarrow> Inr (hexdigest (sha256 bytes)))"

text \<open>
  Line 64: \<open>pos = [ch.index(c) for c in ch if c in capl]\<close>. For a string \<open>c\<close> of one
  character, \<open>c in capl\<close> is membership.
\<close>

definition positions :: "pystr \<Rightarrow> error + int list" where
  "positions s = collect (index s) (filter (\<lambda>c. c \<in> set capl) s)"

text \<open>
  Lines 69 to 72:
  \<^verbatim>\<open>
    left = ch[:pi -1] if pi > 0 else ""
    c = ch[pi].upper()
    right = ch[pi + 1:] if pi < len(ch) -1 else ""
    pw = f"{left}{c}{right}"
  \<close>
\<close>

definition capitalise :: "pystr \<Rightarrow> int \<Rightarrow> error + pystr" where
  "capitalise s i =
     (let left = (if i > 0 then slice_to s (i - 1) else [])
      in case getchar s i of
           Inl e \<Rightarrow> Inl e
         | Inr c0 \<Rightarrow>
             (let c = upper c0;
                  right = (if i < len s - 1 then slice_from s (i + 1) else [])
              in Inr (left @ c @ right)))"

text \<open>
  Lines 79 to 85:
  \<^verbatim>\<open>
    left = pw[:pi] if pi > 0 else ""
    right = pw[pi:] if pi < len(pw) - 1 else ""
    pw = f"{left}{symbol}{right}"
  \<close>
\<close>

definition insert_symbol :: "pystr \<Rightarrow> int \<Rightarrow> pystr \<Rightarrow> pystr" where
  "insert_symbol p i sy =
     (let left = (if i > 0 then slice_to p i else []);
          right = (if i < len p - 1 then slice_from p i else [])
      in left @ sy @ right)"

text \<open>
  Lines 88 and 91: \<open>xpw = [pw[i:i + 4] for i in range(0, len(pw), 4)]\<close> and
  \<open>op = " ".join(xpw)\<close>.
\<close>

definition blocks :: "pystr \<Rightarrow> pystr list" where
  "blocks p = map (\<lambda>i. slice p i (i + 4)) (range3 0 (len p) 4)"

definition display :: "pystr \<Rightarrow> pystr" where
  "display p = join (str '' '') (blocks p)"

subsection \<open>The program state, randomness and output\<close>

text \<open>
  What a run of the program depends on and changes: the text of \<open>wordlist.txt\<close> (\<open>None\<close>
  when the file cannot be opened, which raises OSError; bytes that cannot be decoded are
  left out of the model), the random generator, and what has been written
  to standard output. \<open>random.seed()\<close> seeds the generator from the system, so a run can
  start from any generator state: the state is the sequence of draws still to come, and a
  draw below \<open>n\<close> takes the next one modulo \<open>n\<close>, which can be any number below \<open>n\<close>.
  How likely each number is is not part of the model.
\<close>

record world =
  wordlist_txt :: "pystr option"
  rng :: "nat \<Rightarrow> nat"
  stdout :: pystr

type_synonym 'a prog = "world \<Rightarrow> (error + 'a) \<times> world"

definition ret :: "'a \<Rightarrow> 'a prog" where
  "ret x = (\<lambda>w. (Inr x, w))"

definition lift :: "error + 'a \<Rightarrow> 'a prog" where
  "lift r = (\<lambda>w. (r, w))"

definition bind :: "'a prog \<Rightarrow> ('a \<Rightarrow> 'b prog) \<Rightarrow> 'b prog" where
  "bind m f = (\<lambda>w. case m w of (Inl e, w') \<Rightarrow> (Inl e, w') | (Inr x, w') \<Rightarrow> f x w')"

text \<open>
  One draw: a number below \<open>n\<close>, or 0 when \<open>n = 0\<close> (as \<open>floor(random() * 0)\<close> is).
\<close>

definition draw :: "nat \<Rightarrow> nat prog" where
  "draw n = (\<lambda>w. (Inr (if n = 0 then 0 else rng w 0 mod n), w\<lparr>rng := \<lambda>i. rng w (Suc i)\<rparr>))"

text \<open>
  \<open>random.choices(population, k=k)\<close> is
  \<open>[population[floor(random() * n)] for i in repeat(None, k)]\<close>; on an empty population the
  subscript raises IndexError.
\<close>

fun choices :: "'a list \<Rightarrow> nat \<Rightarrow> 'a list prog" where
  "choices population 0 = ret []"
| "choices population (Suc k) =
     bind (draw (length population)) (\<lambda>i.
     bind (lift (getitem population (int i))) (\<lambda>x.
     bind (choices population k) (\<lambda>xs. ret (x # xs))))"

text \<open>\<open>random.choice(seq)\<close> raises IndexError on an empty sequence.\<close>

definition choice :: "'a list \<Rightarrow> 'a prog" where
  "choice seq =
     (if seq = [] then lift (Inl IndexError)
      else bind (draw (length seq)) (\<lambda>i. lift (getitem seq (int i))))"

text \<open>\<open>random.randint(a, b)\<close> raises ValueError on an empty range.\<close>

definition randint :: "int \<Rightarrow> int \<Rightarrow> int prog" where
  "randint a b =
     (if b < a then lift (Inl ValueError)
      else bind (draw (nat (b - a + 1))) (\<lambda>r. ret (a + int r)))"

text \<open>Lines 47 and 48: open the file and read its lines.\<close>

definition open_readlines :: "pystr list prog" where
  "open_readlines =
     (\<lambda>w. case wordlist_txt w of
             None \<Rightarrow> (Inl OSError, w)
           | Some txt \<Rightarrow> (Inr (readlines txt), w))"

text \<open>\<open>print(op)\<close> writes the string and a newline.\<close>

definition print_line :: "pystr \<Rightarrow> unit prog" where
  "print_line s = (\<lambda>w. (Inr (), w\<lparr>stdout := stdout w @ s @ [10]\<rparr>))"

subsection \<open>\<open>pwgen\<close>\<close>

text \<open>
  The function in three parts. \<open>select\<close> is lines 47 to 60 and gives the words, the phrase,
  the digest and the fifteen characters \<open>ch\<close>. \<open>transform\<close> is lines 64 to 85, from \<open>ch\<close> to
  the final password. \<open>pwgen\<close> runs both and then lines 88 to 94. The records hold the local
  variables of each part; \<open>pi_cap\<close> and \<open>pw_cap\<close> are \<open>pi\<close> and \<open>pw\<close> as first assigned
  (lines 65 and 72), \<open>pi_sym\<close> and \<open>pw\<close> as assigned the second time (lines 76 and 85).
\<close>

record selection =
  words :: "pystr list"
  phrase :: pystr
  hphrase :: pystr
  ch :: pystr

record transformed =
  pos :: "int list"
  pi_cap :: int
  pw_cap :: pystr
  pi_sym :: int
  symbol :: pystr
  pw :: pystr

definition select :: "selection prog" where
  "select =
     bind open_readlines (\<lambda>wlist.
     bind (choices wlist 4) (\<lambda>picked.
     bind (lift (hash_phrase (phrase_of (map rstrip picked)))) (\<lambda>h.
     bind (choices h 15) (\<lambda>cs.
     ret \<lparr>words = map rstrip picked, phrase = phrase_of (map rstrip picked), hphrase = h,
          ch = join [] (map (\<lambda>c. [c]) cs)\<rparr>))))"

definition transform :: "pystr \<Rightarrow> transformed prog" where
  "transform s =
     bind (lift (positions s)) (\<lambda>ps.
     bind (choice ps) (\<lambda>i.
     bind (lift (capitalise s i)) (\<lambda>p.
     bind (randint 0 (len p - 1)) (\<lambda>j.
     bind (choice symbols) (\<lambda>sy.
     ret \<lparr>pos = ps, pi_cap = i, pw_cap = p, pi_sym = j, symbol = [sy],
          pw = insert_symbol p j [sy]\<rparr>)))))"

definition pwgen :: "unit prog" where
  "pwgen =
     bind select (\<lambda>s.
     bind (transform (ch s)) (\<lambda>t.
     print_line (display (pw t))))"

subsection \<open>Programs that write nothing\<close>

definition quiet :: "'a prog \<Rightarrow> bool" where
  "quiet m = (\<forall>w. stdout (snd (m w)) = stdout w)"

subsection \<open>Notions used in the statements\<close>

text \<open>The first position of a character in a string (the length of the string if it is absent).\<close>

definition first_index :: "pystr \<Rightarrow> nat \<Rightarrow> nat" where
  "first_index s c = length (takeWhile (\<lambda>x. x \<noteq> c) s)"

text \<open>The characters that line 64 accepts for capitalisation.\<close>

definition eligible :: "nat \<Rightarrow> bool" where
  "eligible c = (c \<in> set capl)"

text \<open>
  The local variables of a run when line 85 is reached: those of \<open>select\<close> and those of
  \<open>transform\<close>. A run is successful when this is \<open>Inr\<close>.
\<close>

definition locals :: "(selection \<times> transformed) prog" where
  "locals = bind select (\<lambda>s. bind (transform (ch s)) (\<lambda>t. ret (s, t)))"

text \<open>
  Removing the separators between the blocks of a displayed password: after every four
  characters, one space is dropped.
\<close>

fun strip_separators :: "pystr \<Rightarrow> pystr" where
  "strip_separators (a # b # c # d # x # rest) =
     a # b # c # d # (if x = 32 then strip_separators rest else x # rest)"
| "strip_separators s = s"

text \<open>
  Concrete runs. \<open>tape xs\<close> is the generator whose draws are \<open>xs\<close>, then zeros.
  \<open>one_word xs\<close> is the world where \<open>wordlist.txt\<close> is the single line \<open>a\<close>, the draws are
  \<open>xs\<close> and nothing has been printed: every phrase is \<open>a a a a\<close>, and \<open>digest_a\<close> is its
  SHA-256 digest in hexadecimal. Of the draws, the first four pick the words, the next
  fifteen the characters of the digest, then one the letter to capitalise, one the place
  of the symbol and one the symbol. \<open>sel_a c\<close> is what \<open>select\<close> returns in such a run
  when the fifteen characters drawn are \<open>c\<close>.
\<close>

definition tape :: "nat list \<Rightarrow> nat \<Rightarrow> nat" where
  "tape xs i = (if i < length xs then xs ! i else 0)"

definition one_word :: "nat list \<Rightarrow> world" where
  "one_word xs = \<lparr>wordlist_txt = Some (str ''a'' @ [10]), rng = tape xs, stdout = []\<rparr>"

definition digest_a :: pystr where
  "digest_a = str ''f8ebfaf3d51f88b069c0339b7deddfabe1e1bd983605e88041fc82a08d567144''"

definition sel_a :: "pystr \<Rightarrow> selection" where
  "sel_a c = \<lparr>words = replicate 4 (str ''a''), phrase = str ''a a a a'', hphrase = digest_a, ch = c\<rparr>"

text \<open>
  The code points that UTF-8 can encode: all but the surrogates. Text read from a file
  has no others.
\<close>

definition is_scalar :: "nat \<Rightarrow> bool" where
  "is_scalar c = (c < 0xD800 \<or> (0xDFFF < c \<and> c < 0x110000))"

section \<open>Properties\<close>

subsection \<open>Running programs\<close>

lemma bind_Inr: "m w = (Inr x, w') \<Longrightarrow> bind m f w = f x w'"
  by (simp add: bind_def)

lemma bind_Inl: "m w = (Inl e, w') \<Longrightarrow> bind m f w = (Inl e, w')"
  by (simp add: bind_def)

lemma bind_succeeds:
  "bind m f w = (Inr y, w2) \<Longrightarrow> \<exists>x w1. m w = (Inr x, w1) \<and> f x w1 = (Inr y, w2)"
  by (auto simp: bind_def split: prod.splits sum.splits)

lemma lift_succeeds: "lift r w = (Inr x, w') \<Longrightarrow> r = Inr x \<and> w' = w"
  by (simp add: lift_def)

lemma ret_succeeds: "ret x w = (Inr y, w') \<Longrightarrow> y = x \<and> w' = w"
  by (auto simp: ret_def)

lemma quiet_ret: "quiet (ret x)"
  by (simp add: quiet_def ret_def)

lemma quiet_lift: "quiet (lift r)"
  by (simp add: quiet_def lift_def)

lemma quiet_draw: "quiet (draw n)"
  by (simp add: quiet_def draw_def)

lemma quiet_bind:
  assumes "quiet m" and "\<And>x. quiet (f x)"
  shows "quiet (bind m f)"
proof -
  have "stdout (snd (bind m f w)) = stdout w" for w
  proof (cases "m w")
    case (Pair r w1)
    have w1: "stdout w1 = stdout w"
      using assms(1) Pair by (auto simp: quiet_def dest: spec [of _ w])
    show ?thesis
    proof (cases r)
      case (Inl e)
      with Pair w1 show ?thesis by (simp add: bind_def)
    next
      case (Inr x)
      have "stdout (snd (f x w1)) = stdout w1"
        using assms(2) [of x] by (simp add: quiet_def)
      with Pair Inr w1 show ?thesis by (simp add: bind_def)
    qed
  qed
  then show ?thesis by (simp add: quiet_def)
qed

lemma quiet_choices: "quiet (choices xs k)"
  by (induction k) (auto intro!: quiet_bind quiet_ret quiet_lift quiet_draw)

lemma quiet_choice: "quiet (choice xs)"
  by (auto simp: choice_def intro!: quiet_bind quiet_ret quiet_lift quiet_draw)

lemma quiet_randint: "quiet (randint a b)"
  by (auto simp: randint_def intro!: quiet_bind quiet_ret quiet_lift quiet_draw)

lemma quiet_open_readlines: "quiet open_readlines"
  by (auto simp: quiet_def open_readlines_def split: option.splits)

lemma quiet_select: "quiet select"
  unfolding select_def
  by (intro quiet_bind quiet_ret quiet_lift quiet_choices quiet_open_readlines)

lemma quiet_transform: "quiet (transform s)"
  unfolding transform_def
  by (intro quiet_bind quiet_ret quiet_lift quiet_choice quiet_randint)

subsection \<open>choices\<close>

lemma getitem_nth: "i < length xs \<Longrightarrow> getitem xs (int i) = Inr (xs ! i)"
  by (simp add: getitem_def len_def)

lemma draw_apply:
  "draw n w = (Inr (if n = 0 then 0 else rng w 0 mod n), w\<lparr>rng := \<lambda>i. rng w (Suc i)\<rparr>)"
  by (simp add: draw_def)

lemma choices_nonempty:
  "xs \<noteq> [] \<Longrightarrow>
   choices xs k w =
     (Inr (map (\<lambda>j. xs ! (rng w j mod length xs)) [0 ..< k]), w\<lparr>rng := \<lambda>i. rng w (i + k)\<rparr>)"
proof (induction k arbitrary: w)
  case 0
  then show ?case by (simp add: ret_def)
next
  case (Suc k)
  let ?w1 = "w\<lparr>rng := \<lambda>i. rng w (Suc i)\<rparr>"
  have n: "0 < length xs" using Suc.prems by simp
  have d: "draw (length xs) w = (Inr (rng w 0 mod length xs), ?w1)"
    using n by (simp add: draw_apply)
  have g: "getitem xs (int (rng w 0 mod length xs)) = Inr (xs ! (rng w 0 mod length xs))"
    using n by (simp add: getitem_nth)
  have r: "choices xs k ?w1 =
      (Inr (map (\<lambda>j. xs ! (rng w (Suc j) mod length xs)) [0 ..< k]),
       w\<lparr>rng := \<lambda>i. rng w (Suc (i + k))\<rparr>)"
    using Suc.IH [OF Suc.prems, of ?w1] by simp
  show ?case
    using d g r by (simp add: lift_def bind_def ret_def map_upt_Suc del: upt_Suc)
qed

lemma choices_empty: "fst (choices [] (Suc k) w) = Inl IndexError"
  by (simp add: bind_def draw_apply lift_def getitem_def len_def)

lemma choice_nonempty:
  "xs \<noteq> [] \<Longrightarrow>
   choice xs w = (Inr (xs ! (rng w 0 mod length xs)), w\<lparr>rng := \<lambda>i. rng w (Suc i)\<rparr>)"
  by (simp add: choice_def bind_def draw_apply lift_def getitem_nth)

lemma choice_empty: "choice [] w = (Inl IndexError, w)"
  by (simp add: choice_def lift_def)

lemma randint_apply:
  "a \<le> b \<Longrightarrow>
   randint a b w = (Inr (a + int (rng w 0 mod nat (b - a + 1))), w\<lparr>rng := \<lambda>i. rng w (Suc i)\<rparr>)"
  by (simp add: randint_def bind_def draw_apply ret_def)

subsection \<open>The digest\<close>

lemma length_be_bytes: "length (be_bytes k w) = k"
  by (simp add: be_bytes_def)

lemma length_digest: "length (digest s) = 32"
  by (simp add: digest_def length_be_bytes split: prod.splits)

lemma length_hexdigits: "length hexdigits = 16"
  by (simp add: hexdigits_def str_def)

lemma high_nibble: "unat (drop_bit 4 (b :: byte)) < 16"
proof -
  have "unat (drop_bit 4 b) = drop_bit 4 (unat b)"
    by (rule unat_drop_bit_eq)
  also have "\<dots> = unat b div 2 ^ 4"
    by (rule drop_bit_eq_div)
  finally have "unat (drop_bit 4 b) = unat b div 2 ^ 4" .
  moreover have "unat b < 256"
    using unsigned_less [of b, where 'a = nat] by simp
  ultimately show ?thesis by simp
qed

lemma low_nibble: "unat ((b :: byte) AND 15) < 16"
proof -
  have "unat (b AND 15) \<le> unat (15 :: byte)"
    by (rule word_and_le1 [THEN word_le_nat_alt [THEN iffD1]])
  then show ?thesis by simp
qed

lemma length_hex_byte: "length (hex_byte b) = 2"
  by (simp add: hex_byte_def)

lemma set_hex_byte: "set (hex_byte b) \<subseteq> set hexdigits"
  using high_nibble [of b] low_nibble [of b]
  by (simp add: hex_byte_def length_hexdigits)

lemma length_concat_hex: "length (concat (map hex_byte bs)) = 2 * length bs"
  by (induction bs) (simp_all add: length_hex_byte)

lemma length_hexdigest: "length (hexdigest s) = 64"
  by (simp add: hexdigest_def length_concat_hex length_digest)

lemma set_hexdigest: "set (hexdigest s) \<subseteq> set hexdigits"
  using set_hex_byte by (auto simp: hexdigest_def)

subsection \<open>The positions of line 64\<close>

lemma index_first: "c \<in> set s \<Longrightarrow> index s c = Inr (int (first_index s c))"
  by (induction s) (auto simp: first_index_def)

lemma collect_total: "(\<And>x. x \<in> set xs \<Longrightarrow> f x = Inr (g x)) \<Longrightarrow> collect f xs = Inr (map g xs)"
  by (induction xs) simp_all

lemma positions_eq:
  "positions s = Inr (map (\<lambda>c. int (first_index s c)) (filter eligible s))"
  unfolding positions_def eligible_def
  by (rule collect_total) (simp add: index_first)

lemma first_index_less: "c \<in> set s \<Longrightarrow> first_index s c < length s"
  unfolding first_index_def by (induction s) auto

lemma nth_first_index: "c \<in> set s \<Longrightarrow> s ! first_index s c = c"
  unfolding first_index_def by (induction s) auto

lemma first_index_nth_le: "i < length s \<Longrightarrow> first_index s (s ! i) \<le> i"
  unfolding first_index_def
proof (induction s arbitrary: i)
  case Nil
  then show ?case by simp
next
  case (Cons x s)
  then show ?case by (cases i) auto
qed

lemma positions_member:
  assumes "positions s = Inr ps" and "i \<in> set ps"
  shows "0 \<le> i \<and> i < len s \<and> eligible (s ! nat i) \<and> int (first_index s (s ! nat i)) = i"
proof -
  from assms positions_eq [of s]
  obtain c where c: "c \<in> set s" "eligible c" "i = int (first_index s c)"
    by auto
  then show ?thesis
    by (simp add: len_def first_index_less nth_first_index)
qed

subsection \<open>The two string operations\<close>

lemma capitalise_eq:
  assumes "0 \<le> i" and "i < len s"
  shows "capitalise s i =
    Inr ((if i > 0 then take (nat (i - 1)) s else []) @ [upper_char (s ! nat i)]
         @ drop (nat (i + 1)) s)"
  using assms
  by (auto simp: capitalise_def getchar_def getitem_def slice_to_def slice_from_def clip_def
      len_def upper_def Let_def min_def)

lemma len_capitalise:
  assumes "capitalise s i = Inr p" and "0 \<le> i" and "i < len s"
  shows "len p = len s - (if i > 0 then 1 else 0)"
  using assms capitalise_eq [OF assms(2,3)]
  by (auto simp: len_def split: if_splits)

lemma insert_symbol_eq:
  assumes "0 \<le> j" and "j \<le> len p - 1"
  shows "insert_symbol p j sy =
    take (nat j) p @ sy @ (if j < len p - 1 then drop (nat j) p else [])"
  using assms
  by (auto simp: insert_symbol_def slice_to_def slice_from_def clip_def len_def Let_def min_def)

lemma len_insert_symbol:
  assumes "0 \<le> j" and "j \<le> len p - 1"
  shows "len (insert_symbol p j sy) = len p - 1 + len sy + (if j < len p - 1 then 1 else 0)"
  using assms by (auto simp: insert_symbol_eq len_def)

lemma join_empty_sep: "join [] xs = concat xs"
  by (induction "[] :: pystr" xs rule: join.induct) simp_all

lemma join_chars: "join [] (map (\<lambda>c. [c]) cs) = cs"
  by (simp add: join_empty_sep)

subsection \<open>What \<open>transform\<close> and \<open>select\<close> compute\<close>

lemma length_symbols: "length symbols = 14"
  by (simp add: symbols_def str_def)

lemma transform_run:
  assumes ps: "positions s = Inr ps" and ne: "ps \<noteq> []"
    and cap: "capitalise s (ps ! (rng w 0 mod length ps)) = Inr p" and p: "p \<noteq> []"
  shows "transform s w =
    (Inr \<lparr>pos = ps, pi_cap = ps ! (rng w 0 mod length ps), pw_cap = p,
          pi_sym = int (rng w 1 mod length p), symbol = [symbols ! (rng w 2 mod 14)],
          pw = insert_symbol p (int (rng w 1 mod length p)) [symbols ! (rng w 2 mod 14)]\<rparr>,
     w\<lparr>rng := \<lambda>i. rng w (i + 3)\<rparr>)"
proof -
  define w1 where "w1 = w\<lparr>rng := \<lambda>i. rng w (Suc i)\<rparr>"
  define w2 where "w2 = w\<lparr>rng := \<lambda>i. rng w (Suc (Suc i))\<rparr>"
  have sy: "symbols \<noteq> []"
    using length_symbols by auto
  have r: "(0::int) \<le> len p - 1" "nat (len p - 1 - 0 + 1) = length p"
    using p by (simp_all add: len_def Suc_leI)
  have c1: "choice ps w = (Inr (ps ! (rng w 0 mod length ps)), w1)"
    by (simp add: choice_nonempty [OF ne] w1_def)
  have c2: "randint 0 (len p - 1) w1 = (Inr (int (rng w 1 mod length p)), w2)"
    using randint_apply [OF r(1), of w1] by (simp add: w1_def w2_def len_def)
  have c3: "choice symbols w2 =
      (Inr (symbols ! (rng w 2 mod 14)), w\<lparr>rng := \<lambda>i. rng w (i + 3)\<rparr>)"
    by (simp add: choice_nonempty [OF sy] length_symbols w2_def numeral_2_eq_2 numeral_3_eq_3)
  show ?thesis
    unfolding transform_def
    by (simp add: bind_def lift_def ps c1 cap c2 c3 ret_def)
qed

lemma transform_no_letter:
  assumes "positions s = Inr []"
  shows "transform s w = (Inl IndexError, w)"
  unfolding transform_def by (simp add: bind_def lift_def assms choice_empty)

lemma capitalise_nonempty: "capitalise s i = Inr p \<Longrightarrow> p \<noteq> []"
  by (auto simp: capitalise_def Let_def getchar_def upper_def split: sum.splits)

lemma transform_Inr:
  assumes "transform s w = (Inr t, w')"
  shows "positions s = Inr (pos t) \<and> pos t \<noteq> []
    \<and> pi_cap t = pos t ! (rng w 0 mod length (pos t))
    \<and> capitalise s (pi_cap t) = Inr (pw_cap t)
    \<and> pi_sym t = int (rng w 1 mod length (pw_cap t))
    \<and> symbol t = [symbols ! (rng w 2 mod 14)]
    \<and> pw t = insert_symbol (pw_cap t) (pi_sym t) (symbol t)"
proof -
  obtain ps where ps: "positions s = Inr ps"
    using positions_eq by blast
  have ne: "ps \<noteq> []"
    using assms transform_no_letter [of s w] ps by auto
  let ?i = "ps ! (rng w 0 mod length ps)"
  have "?i \<in> set ps"
    using ne by simp
  then have i: "0 \<le> ?i" "?i < len s"
    using positions_member [OF ps] by auto
  obtain p where cap: "capitalise s ?i = Inr p"
    using capitalise_eq [OF i] by blast
  have p: "p \<noteq> []"
    using cap by (rule capitalise_nonempty)
  note r = transform_run [OF ps ne cap p]
  show ?thesis
    using assms unfolding r by (auto simp: ps ne cap)
qed

lemma hash_phrase_length: "hash_phrase x = Inr h \<Longrightarrow> length h = 64"
  by (auto simp: hash_phrase_def length_hexdigest split: sum.splits)

lemma hash_phrase_alphabet: "hash_phrase x = Inr h \<Longrightarrow> set h \<subseteq> set hexdigits"
  by (auto simp: hash_phrase_def split: sum.splits dest: subsetD [OF set_hexdigest])

lemma select_run:
  assumes src: "wordlist_txt w = Some txt" and ne: "readlines txt \<noteq> []"
    and ws: "ws = map (\<lambda>j. rstrip (readlines txt ! (rng w j mod length (readlines txt)))) [0 ..< 4]"
    and h: "hash_phrase (phrase_of ws) = Inr h"
  shows "select w =
    (Inr \<lparr>words = ws, phrase = phrase_of ws, hphrase = h,
          ch = map (\<lambda>j. h ! (rng w (j + 4) mod 64)) [0 ..< 15]\<rparr>,
     w\<lparr>rng := \<lambda>i. rng w (i + 19)\<rparr>)"
proof -
  define picked where
    "picked = map (\<lambda>j. readlines txt ! (rng w j mod length (readlines txt))) [0 ..< 4]"
  define w1 where "w1 = w\<lparr>rng := \<lambda>i. rng w (i + 4)\<rparr>"
  have hne: "h \<noteq> []" and hl: "length h = 64"
    using hash_phrase_length [OF h] by auto
  have o: "open_readlines w = (Inr (readlines txt), w)"
    by (simp add: open_readlines_def src)
  have c1: "choices (readlines txt) 4 w = (Inr picked, w1)"
    unfolding picked_def w1_def by (rule choices_nonempty [OF ne])
  have m: "map rstrip picked = ws"
    unfolding picked_def ws by (simp del: upt_Suc)
  have c2: "choices h 15 w1 =
      (Inr (map (\<lambda>j. h ! (rng w (j + 4) mod 64)) [0 ..< 15]), w\<lparr>rng := \<lambda>i. rng w (i + 19)\<rparr>)"
    using choices_nonempty [OF hne, of 15 w1]
    by (simp add: w1_def hl add.assoc del: upt_Suc)
  show ?thesis
    unfolding select_def
    by (simp add: bind_def o c1 m lift_def h c2 ret_def join_chars del: upt_Suc)
qed

lemma select_Inr:
  assumes "select w = (Inr s, w')"
  shows "\<exists>txt. wordlist_txt w = Some txt \<and> readlines txt \<noteq> []
    \<and> words s = map (\<lambda>j. rstrip (readlines txt ! (rng w j mod length (readlines txt)))) [0 ..< 4]
    \<and> phrase s = phrase_of (words s)
    \<and> hash_phrase (phrase s) = Inr (hphrase s)
    \<and> ch s = map (\<lambda>j. hphrase s ! (rng w (j + 4) mod 64)) [0 ..< 15]
    \<and> w' = w\<lparr>rng := \<lambda>i. rng w (i + 19)\<rparr>"
proof (cases "wordlist_txt w")
  case None
  then have "fst (select w) = Inl OSError"
    by (simp add: select_def bind_def open_readlines_def)
  with assms show ?thesis by simp
next
  case (Some content)
  show ?thesis
  proof (cases "readlines content = []")
    case True
    have "fst (select w) = Inl IndexError"
      unfolding select_def
      by (simp add: bind_def open_readlines_def Some True eval_nat_numeral draw_apply lift_def
          getitem_def len_def)
    with assms show ?thesis by simp
  next
    case False
    define ws where
      "ws = map (\<lambda>j. rstrip (readlines content ! (rng w j mod length (readlines content)))) [0 ..< 4]"
    show ?thesis
    proof (cases "hash_phrase (phrase_of ws)")
      case (Inl e)
      have o: "open_readlines w = (Inr (readlines content), w)"
        by (simp add: open_readlines_def Some)
      have m: "map rstrip (map (\<lambda>j. readlines content ! (rng w j mod length (readlines content))) [0 ..< 4]) = ws"
        by (simp add: ws_def del: upt_Suc)
      have "fst (select w) = Inl e"
        unfolding select_def
        by (simp add: bind_def o choices_nonempty [OF False] m lift_def Inl del: upt_Suc map_map)
      with assms show ?thesis by simp
    next
      case (Inr h)
      note r = select_run [OF Some False ws_def Inr]
      show ?thesis
        using assms unfolding r
        by (intro exI [of _ content]) (auto simp: Some False Inr ws_def [symmetric] simp del: upt_Suc)
    qed
  qed
qed

subsection \<open>The run on the word list with the one word \<open>a\<close>\<close>


lemma encode_a: "encode (str ''a a a a'') = Inr [97, 32, 97, 32, 97, 32, 97]"
  by (simp add: str_def utf8_char_def)

lemma sha256_a: "hexdigest (sha256 [97, 32, 97, 32, 97, 32, 97]) = digest_a"
  by code_simp

lemma hash_phrase_a: "hash_phrase (str ''a a a a'') = Inr digest_a"
  by (simp add: hash_phrase_def encode_a sha256_a)

text \<open>
  The model of SHA-256 and of UTF-8 on known values: the two examples of FIPS 180-4 for
  SHA-256 (one block and two blocks), and code points that take two, three and four bytes.
\<close>

lemma sha256_abc:
  "hash_phrase (str ''abc'') =
     Inr (str ''ba7816bf8f01cfea414140de5dae2223b00361a396177a9cb410ff61f20015ad'')"
  by code_simp

lemma sha256_two_blocks:
  "hash_phrase (str ''abcdbcdecdefdefgefghfghighijhijkijkljklmklmnlmnomnopnopq'') =
     Inr (str ''248d6a61d20638b8e5c026930c3e6039a33ce45964ff2167f6ecedd419db06c1'')"
  by code_simp

lemma encode_beyond_ascii:
  "encode [233, 8364, 128512] = Inr [195, 169, 226, 130, 172, 240, 159, 152, 128]
   \<and> encode [97, 55296] = Inl UnicodeEncodeError"
  by (simp add: utf8_char_def)

lemma readlines_a: "readlines (str ''a'' @ [10]) = [[97, 10]]"
  by (simp add: readlines_def str_def)

lemma rstrip_a: "rstrip [97, 10] = str ''a''"
  by (simp add: rstrip_def isspace_def str_def)

lemma phrase_a: "phrase_of (replicate 4 (str ''a'')) = str ''a a a a''"
  by (simp add: phrase_of_def str_def eval_nat_numeral)

lemma one_word_select:
  "select (one_word xs) =
     (Inr \<lparr>words = replicate 4 (str ''a''), phrase = str ''a a a a'', hphrase = digest_a,
           ch = map (\<lambda>j. digest_a ! (tape xs (j + 4) mod 64)) [0 ..< 15]\<rparr>,
      (one_word xs)\<lparr>rng := \<lambda>i. tape xs (i + 19)\<rparr>)"
proof -
  have src: "wordlist_txt (one_word xs) = Some (str ''a'' @ [10])"
    by (simp add: one_word_def)
  have ne: "readlines (str ''a'' @ [10]) \<noteq> []"
    by (simp add: readlines_a)
  have ws: "replicate 4 (str ''a'') =
      map (\<lambda>j. rstrip (readlines (str ''a'' @ [10]) !
        (rng (one_word xs) j mod length (readlines (str ''a'' @ [10]))))) [0 ..< 4]"
    by (simp add: readlines_a rstrip_a map_replicate_const del: upt_Suc)
  have h: "hash_phrase (phrase_of (replicate 4 (str ''a''))) = Inr digest_a"
    by (simp only: phrase_a hash_phrase_a)
  show ?thesis
    using select_run [OF src ne ws h] by (simp add: phrase_a one_word_def)
qed

subsection \<open>Whole runs\<close>

lemma locals_run:
  assumes "select w = (Inr s, w1)" and "transform (ch s) w1 = (Inr t, w2)"
  shows "locals w = (Inr (s, t), w2)"
  using assms by (simp add: locals_def bind_def ret_def)

lemma locals_Inr:
  assumes "fst (locals w) = Inr (s, t)"
  shows "\<exists>w1 w2. select w = (Inr s, w1) \<and> transform (ch s) w1 = (Inr t, w2)"
proof -
  obtain w2 where "locals w = (Inr (s, t), w2)"
    using assms by (cases "locals w") simp
  then obtain s' w1 where s: "select w = (Inr s', w1)"
    and r: "bind (transform (ch s')) (\<lambda>t. ret (s', t)) w1 = (Inr (s, t), w2)"
    unfolding locals_def by (blast dest: bind_succeeds)
  from r obtain t' w3 where t: "transform (ch s') w1 = (Inr t', w3)"
    and e: "ret (s', t') w3 = (Inr (s, t), w2)"
    by (blast dest: bind_succeeds)
  from e have "s' = s" "t' = t" "w3 = w2"
    by (simp_all add: ret_def)
  with s t show ?thesis by blast
qed

lemma quiet_locals: "quiet locals"
  unfolding locals_def
  by (intro quiet_bind quiet_ret quiet_select quiet_transform)

lemma pwgen_locals:
  "pwgen w =
     (case locals w of
        (Inl e, w') \<Rightarrow> (Inl e, w')
      | (Inr (s, t), w') \<Rightarrow> print_line (display (pw t)) w')"
  by (simp add: pwgen_def locals_def bind_def ret_def split: prod.splits sum.splits)

lemma pwgen_success:
  assumes "fst (locals w) = Inr (s, t)"
  shows "fst (pwgen w) = Inr () \<and> stdout (snd (pwgen w)) = stdout w @ display (pw t) @ [10]"
proof -
  obtain w2 where l: "locals w = (Inr (s, t), w2)"
    using assms by (cases "locals w") simp
  have "stdout w2 = stdout w"
    using quiet_locals l by (auto simp: quiet_def dest: spec [of _ w])
  then show ?thesis
    by (simp add: pwgen_locals l print_line_def)
qed

lemma pwgen_failure:
  assumes "fst (locals w) = Inl e"
  shows "fst (pwgen w) = Inl e \<and> stdout (snd (pwgen w)) = stdout w"
proof -
  obtain w2 where l: "locals w = (Inl e, w2)"
    using assms by (cases "locals w") simp
  have "stdout w2 = stdout w"
    using quiet_locals l by (auto simp: quiet_def dest: spec [of _ w])
  then show ?thesis
    by (simp add: pwgen_locals l)
qed

lemma locals_no_letter:
  assumes "select w = (Inr s, w1)" and "filter eligible (ch s) = []"
  shows "fst (locals w) = Inl IndexError"
proof -
  have "positions (ch s) = Inr []"
    by (simp add: positions_eq assms(2))
  then have "transform (ch s) w1 = (Inl IndexError, w1)"
    by (rule transform_no_letter)
  with assms(1) show ?thesis
    by (simp add: locals_def bind_def)
qed

subsection \<open>Lengths in a run\<close>

lemma length_ch:
  assumes "select w = (Inr s, w1)"
  shows "length (ch s) = 15 \<and> set (ch s) \<subseteq> set hexdigits"
proof -
  from select_Inr [OF assms] have h: "hash_phrase (phrase s) = Inr (hphrase s)"
    and c: "ch s = map (\<lambda>j. hphrase s ! (rng w (j + 4) mod 64)) [0 ..< 15]"
    by auto
  have l: "length (hphrase s) = 64"
    using h by (rule hash_phrase_length)
  have "set (ch s) \<subseteq> set (hphrase s)"
    unfolding c using l by auto
  with hash_phrase_alphabet [OF h] c show ?thesis
    by (metis (no_types, lifting) diff_zero dual_order.trans length_map length_upt)
qed

lemma run_facts:
  assumes "fst (locals w) = Inr (s, t)"
  shows "length (ch s) = 15 \<and> 0 \<le> pi_cap t \<and> pi_cap t < 15
    \<and> eligible (ch s ! nat (pi_cap t))
    \<and> capitalise (ch s) (pi_cap t) = Inr (pw_cap t)
    \<and> len (pw_cap t) = 15 - (if pi_cap t > 0 then 1 else 0)
    \<and> 0 \<le> pi_sym t \<and> pi_sym t \<le> len (pw_cap t) - 1
    \<and> length (symbol t) = 1 \<and> set (symbol t) \<subseteq> set symbols
    \<and> pw t = insert_symbol (pw_cap t) (pi_sym t) (symbol t)"
proof -
  from locals_Inr [OF assms] obtain w1 w2 where s: "select w = (Inr s, w1)"
    and t: "transform (ch s) w1 = (Inr t, w2)"
    by blast
  have l: "length (ch s) = 15"
    using length_ch [OF s] by simp
  from transform_Inr [OF t]
  have ps: "positions (ch s) = Inr (pos t)" and ne: "pos t \<noteq> []"
    and pc: "pi_cap t = pos t ! (rng w1 0 mod length (pos t))"
    and cap: "capitalise (ch s) (pi_cap t) = Inr (pw_cap t)"
    and j: "pi_sym t = int (rng w1 1 mod length (pw_cap t))"
    and sy: "symbol t = [symbols ! (rng w1 2 mod 14)]"
    and pw: "pw t = insert_symbol (pw_cap t) (pi_sym t) (symbol t)"
    by blast+
  have m: "pi_cap t \<in> set (pos t)"
    using ne by (simp add: pc)
  note i = positions_member [OF ps m]
  have i15: "0 \<le> pi_cap t" "pi_cap t < len (ch s)"
    using i by simp_all
  have lp: "len (pw_cap t) = 15 - (if pi_cap t > 0 then 1 else 0)"
    using len_capitalise [OF cap i15] l by (simp add: len_def)
  have p: "pw_cap t \<noteq> []"
    using cap by (rule capitalise_nonempty)
  have j2: "0 \<le> pi_sym t" "pi_sym t \<le> len (pw_cap t) - 1"
    using p by (simp_all add: j len_def Suc_leI less_Suc_eq_le [symmetric])
  have sy2: "set (symbol t) \<subseteq> set symbols"
    by (simp add: sy length_symbols)
  have "pi_cap t < 15" "eligible (ch s ! nat (pi_cap t))" "length (symbol t) = 1"
    using i l sy by (simp_all add: len_def)
  with l i15(1) cap lp j2 sy2 pw show ?thesis
    by blast
qed

lemma one_word_locals:
  assumes c: "map (\<lambda>j. digest_a ! (tape xs (j + 4) mod 64)) [0 ..< 15] = c"
    and ps: "positions c = Inr ps" and ne: "ps \<noteq> []"
    and cap: "capitalise c (ps ! (tape xs 19 mod length ps)) = Inr p"
  shows "fst (locals (one_word xs)) =
    Inr (sel_a c,
         \<lparr>pos = ps, pi_cap = ps ! (tape xs 19 mod length ps), pw_cap = p,
          pi_sym = int (tape xs 20 mod length p), symbol = [symbols ! (tape xs 21 mod 14)],
          pw = insert_symbol p (int (tape xs 20 mod length p)) [symbols ! (tape xs 21 mod 14)]\<rparr>)"
proof -
  let ?w1 = "(one_word xs)\<lparr>rng := \<lambda>i. tape xs (i + 19)\<rparr>"
  have s: "select (one_word xs) = (Inr (sel_a c), ?w1)"
    by (simp add: one_word_select c sel_a_def)
  have c': "ch (sel_a c) = c"
    by (simp add: sel_a_def)
  have cap': "capitalise c (ps ! (rng ?w1 0 mod length ps)) = Inr p"
    using cap by simp
  have p: "p \<noteq> []"
    using cap by (rule capitalise_nonempty)
  have t: "transform (ch (sel_a c)) ?w1 = (Inr \<lparr>pos = ps, pi_cap = ps ! (tape xs 19 mod length ps), pw_cap = p,
          pi_sym = int (tape xs 20 mod length p), symbol = [symbols ! (tape xs 21 mod 14)],
          pw = insert_symbol p (int (tape xs 20 mod length p)) [symbols ! (tape xs 21 mod 14)]\<rparr>, ?w1\<lparr>rng := \<lambda>i. rng ?w1 (i + 3)\<rparr>)"
    unfolding c' using transform_run [OF ps ne cap' p] by simp
  show ?thesis
    using locals_run [OF s t] by simp
qed

lemma one_word_run:
  assumes c: "map (\<lambda>j. digest_a ! (tape xs (j + 4) mod 64)) [0 ..< 15] = c"
    and ps: "positions c = Inr ps"
    and k: "tape xs 19 mod length ps = k" "k < length ps" "ps ! k = i"
    and cap: "capitalise c i = Inr p"
    and j: "int (tape xs 20 mod length p) = j"
    and y: "[symbols ! (tape xs 21 mod 14)] = y"
    and q: "insert_symbol p j y = q"
  shows "fst (locals (one_word xs)) =
    Inr (sel_a c, \<lparr>pos = ps, pi_cap = i, pw_cap = p, pi_sym = j, symbol = y, pw = q\<rparr>)"
proof -
  have ne: "ps \<noteq> []"
    using k(2) by auto
  have cap': "capitalise c (ps ! (tape xs 19 mod length ps)) = Inr p"
    by (simp add: k cap)
  show ?thesis
    using one_word_locals [OF c ps ne cap'] by (simp add: k j y q)
qed

text \<open>Run A: the characters drawn are \<open>8f8888888888888\<close>.\<close>

lemma run_a:
  "fst (locals (one_word [0,0,0,0, 1,0,1,1,1,1,1,1,1,1,1,1,1,1,1, 0, 13, 0])) =
    Inr (sel_a (str ''8f8888888888888''),
         \<lparr>pos = [1], pi_cap = 1, pw_cap = str ''F8888888888888'', pi_sym = 13,
          symbol = str ''='', pw = str ''F888888888888=''\<rparr>)"
  by (rule one_word_run [where k = 0]) code_simp+



text \<open>Run B: the characters drawn are the first fifteen of the digest.\<close>

lemma run_b:
  "fst (locals (one_word [0,0,0,0, 0,1,2,3,4,5,6,7,8,9,10,11,12,13,14, 3, 14, 1])) =
    Inr (sel_a (str ''f8ebfaf3d51f88b''),
         \<lparr>pos = [0, 2, 0, 5, 0, 8, 0], pi_cap = 5, pw_cap = str ''f8ebAf3d51f88b'', pi_sym = 0,
          symbol = str ''-'', pw = str ''-f8ebAf3d51f88b''\<rparr>)"
  by (rule one_word_run [where k = 3]) code_simp+

text \<open>Run C: the only letter is the last character.\<close>

lemma run_c:
  "fst (locals (one_word [0,0,0,0, 1,1,1,1,1,1,1,1,1,1,1,1,1,1,0, 0, 13, 0])) =
    Inr (sel_a (str ''88888888888888f''),
         \<lparr>pos = [14], pi_cap = 14, pw_cap = str ''8888888888888F'', pi_sym = 13,
          symbol = str ''='', pw = str ''8888888888888=''\<rparr>)"
  by (rule one_word_run [where k = 0]) code_simp+

text \<open>Run D: fifteen times the character \<open>a\<close>.\<close>

lemma run_d:
  "fst (locals (one_word [0,0,0,0, 5,5,5,5,5,5,5,5,5,5,5,5,5,5,5, 7, 3, 2])) =
    Inr (sel_a (str ''aaaaaaaaaaaaaaa''),
         \<lparr>pos = [0, 0, 0, 0, 0, 0, 0, 0, 0, 0, 0, 0, 0, 0, 0], pi_cap = 0,
          pw_cap = str ''Aaaaaaaaaaaaaaa'', pi_sym = 3,
          symbol = str ''!'', pw = str ''Aaa!aaaaaaaaaaaa''\<rparr>)"
  by (rule one_word_run [where k = 7]) code_simp+

text \<open>Run E: the first letter is capitalised and the symbol goes to the last position.\<close>

lemma run_e:
  "fst (locals (one_word [0,0,0,0, 0,1,2,3,4,5,6,7,8,9,10,11,12,13,14, 0, 14, 0])) =
    Inr (sel_a (str ''f8ebfaf3d51f88b''),
         \<lparr>pos = [0, 2, 0, 5, 0, 8, 0], pi_cap = 0, pw_cap = str ''F8ebfaf3d51f88b'', pi_sym = 14,
          symbol = str ''='', pw = str ''F8ebfaf3d51f88=''\<rparr>)"
  by (rule one_word_run [where k = 0]) code_simp+

text \<open>Run F: no letter among the characters drawn.\<close>

lemma run_f_select:
  "select (one_word [0,0,0,0, 1,1,1,1,1,1,1,1,1,1,1,1,1,1,1, 0, 0, 0]) =
    (Inr (sel_a (str ''888888888888888'')),
     (one_word [0,0,0,0, 1,1,1,1,1,1,1,1,1,1,1,1,1,1,1, 0, 0, 0])
       \<lparr>rng := \<lambda>i. tape [0,0,0,0, 1,1,1,1,1,1,1,1,1,1,1,1,1,1,1, 0, 0, 0] (i + 19)\<rparr>)"
proof -
  have "map (\<lambda>j. digest_a ! (tape [0,0,0,0, 1,1,1,1,1,1,1,1,1,1,1,1,1,1,1, 0, 0, 0] (j + 4) mod 64))
      [0 ..< 15] = str ''888888888888888''"
    by code_simp
  then show ?thesis
    by (simp only: one_word_select sel_a_def)
qed

lemma run_f_no_letter: "filter eligible (ch (sel_a (str ''888888888888888''))) = []"
  by code_simp

subsection \<open>The length of the password\<close>

text \<open>
  C10. In every successful run the password has 15 characters, less one when the index of
  the capitalised letter is greater than 0, plus one when the index for the symbol is less
  than the last index of the capitalised string. So it has between 14 and 16 characters,
  and each of the three lengths occurs in some run.
\<close>

theorem pw_length:
  assumes "fst (locals w) = Inr (s, t)"
  shows "len (pw t) = 15 - (if pi_cap t > 0 then 1 else 0)
                        + (if pi_sym t < len (pw_cap t) - 1 then 1 else 0)
    \<and> 14 \<le> len (pw t) \<and> len (pw t) \<le> 16
    \<and> (\<exists>w' s' t'. fst (locals w') = Inr (s', t') \<and> len (pw t') = 14)
    \<and> (\<exists>w' s' t'. fst (locals w') = Inr (s', t') \<and> len (pw t') = 15)
    \<and> (\<exists>w' s' t'. fst (locals w') = Inr (s', t') \<and> len (pw t') = 16)"
proof -
  from run_facts [OF assms]
  have lp: "len (pw_cap t) = 15 - (if pi_cap t > 0 then 1 else 0)"
    and j: "0 \<le> pi_sym t" "pi_sym t \<le> len (pw_cap t) - 1"
    and y: "length (symbol t) = 1"
    and q: "pw t = insert_symbol (pw_cap t) (pi_sym t) (symbol t)"
    by blast+
  have l: "len (pw t) = 15 - (if pi_cap t > 0 then 1 else 0)
                        + (if pi_sym t < len (pw_cap t) - 1 then 1 else 0)"
    unfolding q len_insert_symbol [OF j] using lp y by (simp add: len_def)
  have r14: "\<exists>w' s' t'. fst (locals w') = Inr (s', t') \<and> len (pw t') = 14"
    by (intro exI conjI, rule run_a) (simp add: len_def str_def)
  have r15: "\<exists>w' s' t'. fst (locals w') = Inr (s', t') \<and> len (pw t') = 15"
    by (intro exI conjI, rule run_b) (simp add: len_def str_def)
  have r16: "\<exists>w' s' t'. fst (locals w') = Inr (s', t') \<and> len (pw t') = 16"
    by (intro exI conjI, rule run_d) (simp add: len_def str_def)
  from l have "14 \<le> len (pw t)" "len (pw t) \<le> 16"
    by (simp_all split: if_splits)
  with l r14 r15 r16 show ?thesis
    by blast
qed

theorem pw_length_witness:
  "fst (locals (one_word [0,0,0,0, 0,1,2,3,4,5,6,7,8,9,10,11,12,13,14, 3, 14, 1])) =
     Inr (sel_a (str ''f8ebfaf3d51f88b''),
          \<lparr>pos = [0, 2, 0, 5, 0, 8, 0], pi_cap = 5, pw_cap = str ''f8ebAf3d51f88b'', pi_sym = 0,
           symbol = str ''-'', pw = str ''-f8ebAf3d51f88b''\<rparr>)
   \<and> len (str ''-f8ebAf3d51f88b'') = 15 - 1 + 1"
  using pw_length [OF run_b] run_b by (simp add: len_def str_def)

subsection \<open>The formatter\<close>

lemma range3_by_4: "range3 0 (len p) 4 = map (\<lambda>k. int (4 * k)) [0 ..< (length p + 3) div 4]"
proof -
  have "(len p - 0 + 4 - 1) div 4 = int ((length p + 3) div 4)"
    by (simp add: len_def zdiv_int add.commute)
  then have "nat ((len p - 0 + 4 - 1) div 4) = (length p + 3) div 4"
    by (simp only: nat_int)
  then show ?thesis
    unfolding range3_def by (simp add: mult.commute)
qed

lemma slice_block:
  assumes "0 \<le> i"
  shows "slice p i (i + 4) = take 4 (drop (nat i) p)"
proof (cases "i < len p")
  case True
  show ?thesis
  proof (cases "i + 4 \<le> len p")
    case True
    with assms show ?thesis
      by (simp add: slice_def clip_def len_def min_def drop_take nat_add_distrib)
  next
    case False
    with assms \<open>i < len p\<close> show ?thesis
      by (simp add: slice_def clip_def len_def min_def)
  qed
next
  case False
  with assms show ?thesis
    by (simp add: slice_def clip_def len_def min_def)
qed

lemma blocks_eq: "blocks p = map (\<lambda>k. take 4 (drop (4 * k) p)) [0 ..< (length p + 3) div 4]"
  by (simp add: blocks_def range3_by_4 slice_block comp_def nat_mult_distrib del: upt_Suc)

lemma concat_blocks_upto:
  "concat (map (\<lambda>k. take 4 (drop (4 * k) p)) [0 ..< m]) = take (4 * m) p"
proof (induction m)
  case 0
  then show ?case by simp
next
  case (Suc m)
  have "take (4 * m) p @ take 4 (drop (4 * m) p) = take (4 * m + 4) p"
    by (simp add: take_add)
  with Suc show ?case by (simp add: add.commute)
qed

lemma concat_blocks: "concat (blocks p) = p"
  by (simp add: blocks_eq concat_blocks_upto del: upt_Suc)

lemma blocks_Nil: "blocks [] = []"
  by (simp add: blocks_eq)

lemma blocks_rec:
  assumes "p \<noteq> []"
  shows "blocks p = take 4 p # blocks (drop 4 p)"
proof -
  have m: "(length p + 3) div 4 = Suc ((length p - 4 + 3) div 4)"
    using assms by (cases p) (simp_all, arith)
  have "blocks p = take 4 p # map (\<lambda>k. take 4 (drop (4 * Suc k) p)) [0 ..< (length p - 4 + 3) div 4]"
    unfolding blocks_eq m by (simp add: map_upt_Suc del: upt_Suc)
  also have "map (\<lambda>k. take 4 (drop (4 * Suc k) p)) [0 ..< (length p - 4 + 3) div 4]
      = blocks (drop 4 p)"
    by (simp add: blocks_eq add.commute del: upt_Suc)
  finally show ?thesis .
qed

lemma display_short:
  assumes "length p \<le> 4"
  shows "display p = p"
proof (cases "p = []")
  case True
  then show ?thesis by (simp add: display_def blocks_Nil)
next
  case False
  then show ?thesis
    using assms by (simp add: display_def blocks_rec blocks_Nil)
qed

lemma display_long:
  assumes "4 < length p"
  shows "display p = take 4 p @ [32] @ display (drop 4 p)"
proof -
  have p: "p \<noteq> []" and d: "drop 4 p \<noteq> []"
    using assms by auto
  obtain b bs where b: "blocks (drop 4 p) = b # bs"
    using blocks_rec [OF d] by blast
  show ?thesis
    by (simp add: display_def blocks_rec [OF p] b str_def)
qed

lemma strip_separators_display: "strip_separators (display p) = p"
proof (induction p rule: length_induct)
  case (1 p)
  show ?case
  proof (cases p rule: strip_separators.cases)
    case (1 a b c d x rest)
    have ih: "strip_separators (display (x # rest)) = x # rest"
      using "1.IH" 1 by simp
    have "display p = a # b # c # d # 32 # display (x # rest)"
      using display_long [of p] by (simp add: 1)
    with ih show ?thesis
      by (simp add: 1)
  qed (simp_all add: display_short)
qed



subsection \<open>Encoding and trimming\<close>

lemma utf8_char_scalar: "is_scalar c \<Longrightarrow> \<exists>bs. utf8_char c = Inr bs"
  by (auto simp: utf8_char_def is_scalar_def)

lemma encode_scalar: "\<forall>c\<in>set x. is_scalar c \<Longrightarrow> \<exists>bs. encode x = Inr bs"
proof (induction x)
  case Nil
  then show ?case by simp
next
  case (Cons c x)
  then obtain bs rest where "utf8_char c = Inr bs" "encode x = Inr rest"
    using utf8_char_scalar [of c] by auto
  then show ?case by simp
qed

lemma set_join: "set (join sep xs) \<subseteq> set sep \<union> set (concat xs)"
  by (induction sep xs rule: join.induct) auto

lemma phrase_scalar:
  assumes "\<forall>c\<in>set (concat ws). is_scalar c"
  shows "\<forall>c\<in>set (phrase_of ws). is_scalar c"
proof -
  have "is_scalar 32"
    by (simp add: is_scalar_def)
  then have "\<forall>c\<in>set (str '' '') \<union> set (concat ws). is_scalar c"
    using assms by (simp add: str_def)
  then show ?thesis
    unfolding phrase_of_def using set_join [of "str '' ''" ws] by blast
qed

lemma hash_phrase_scalar:
  assumes "\<forall>c\<in>set (concat ws). is_scalar c"
  shows "\<exists>bytes. encode (phrase_of ws) = Inr bytes
    \<and> hash_phrase (phrase_of ws) = Inr (hexdigest (sha256 bytes))"
proof -
  obtain bytes where "encode (phrase_of ws) = Inr bytes"
    using encode_scalar [OF phrase_scalar [OF assms]] by blast
  then show ?thesis
    by (simp add: hash_phrase_def)
qed



lemma rstrip_suffix: "\<exists>sp. x = rstrip x @ sp \<and> (\<forall>c\<in>set sp. isspace c)"
proof -
  have "rev x = takeWhile isspace (rev x) @ dropWhile isspace (rev x)"
    by simp
  then have "x = rev (dropWhile isspace (rev x)) @ rev (takeWhile isspace (rev x))"
    by (metis rev_append rev_rev_ident)
  moreover have "\<forall>c\<in>set (rev (takeWhile isspace (rev x))). isspace c"
    by (auto dest: set_takeWhileD)
  ultimately show ?thesis
    unfolding rstrip_def by blast
qed






subsection \<open>The claims about the formatter, the sampler, the digest and the failure\<close>

lemma display_a: "display (str ''F888888888888='') = str ''F888 8888 8888 8=''"
  by code_simp

lemma strip_a: "strip_separators (str ''F888 8888 8888 8='') = str ''F888888888888=''"
  by code_simp

text \<open>
  C8. For every string, the blocks are its consecutive pieces of four characters (the last
  one may be shorter), the display is the blocks joined by single spaces, and both
  concatenating the blocks and removing the separators from the display give the string
  back.
\<close>

theorem display_round_trip:
  "blocks p = map (\<lambda>k. take 4 (drop (4 * k) p)) [0 ..< (length p + 3) div 4]
   \<and> display p = join (str '' '') (blocks p)
   \<and> concat (blocks p) = p
   \<and> strip_separators (display p) = p"
  using blocks_eq [of p] concat_blocks [of p] strip_separators_display [of p]
  by (simp add: display_def)

theorem display_round_trip_witness:
  "display (str ''F888888888888='') = str ''F888 8888 8888 8=''
   \<and> strip_separators (str ''F888 8888 8888 8='') = str ''F888888888888=''"
proof -
  from display_round_trip [of "str ''F888888888888=''"]
  have "strip_separators (display (str ''F888888888888='')) = str ''F888888888888=''"
    by blast
  with display_a show ?thesis
    by simp
qed

text \<open>
  C6. When none of the fifteen characters drawn is in \<open>capl\<close>, the run ends with the
  IndexError that \<open>random.choice\<close> raises on the empty list of positions (the spec's
  NoEligibleLetter), and standard output is as it was: nothing has been printed.
\<close>

theorem no_letter_no_output:
  assumes "select w = (Inr s, w1)" and "\<forall>c\<in>set (ch s). c \<notin> set capl"
  shows "fst (pwgen w) = Inl IndexError \<and> stdout (snd (pwgen w)) = stdout w"
proof -
  have "filter eligible (ch s) = []"
    using assms(2) by (simp add: eligible_def filter_empty_conv)
  then have "fst (locals w) = Inl IndexError"
    using assms(1) by (rule locals_no_letter [rotated])
  then show ?thesis
    by (rule pwgen_failure)
qed

theorem no_letter_no_output_witness:
  "fst (pwgen (one_word [0,0,0,0, 1,1,1,1,1,1,1,1,1,1,1,1,1,1,1, 0, 0, 0])) = Inl IndexError
   \<and> stdout (snd (pwgen (one_word [0,0,0,0, 1,1,1,1,1,1,1,1,1,1,1,1,1,1,1, 0, 0, 0]))) = []"
proof -
  have "\<forall>c\<in>set (ch (sel_a (str ''888888888888888''))). c \<notin> set capl"
    using run_f_no_letter by (simp add: eligible_def filter_empty_conv)
  from no_letter_no_output [OF run_f_select this] show ?thesis
    by (simp add: one_word_def)
qed

text \<open>
  C7. The digest of a phrase whose characters UTF-8 can encode is the SHA-256 of its UTF-8
  bytes in hexadecimal: 64 characters, each one of \<open>0123456789abcdef\<close>. It is a function of
  the words alone: every run that draws the words \<open>ws\<close> has this digest.
\<close>

theorem digest_of_phrase:
  assumes "\<forall>c\<in>set (concat ws). is_scalar c"
  shows "\<exists>bytes. encode (phrase_of ws) = Inr bytes
    \<and> hash_phrase (phrase_of ws) = Inr (hexdigest (sha256 bytes))
    \<and> length (hexdigest (sha256 bytes)) = 64
    \<and> set (hexdigest (sha256 bytes)) \<subseteq> set hexdigits
    \<and> (\<forall>w s w1. select w = (Inr s, w1) \<and> words s = ws \<longrightarrow> hphrase s = hexdigest (sha256 bytes))"
proof -
  obtain bytes where e: "encode (phrase_of ws) = Inr bytes"
    and h: "hash_phrase (phrase_of ws) = Inr (hexdigest (sha256 bytes))"
    using hash_phrase_scalar [OF assms] by blast
  have "hphrase s = hexdigest (sha256 bytes)" if "select w = (Inr s, w1)" "words s = ws" for w s w1
  proof -
    from select_Inr [OF that(1)] have "phrase s = phrase_of (words s)"
      and "hash_phrase (phrase s) = Inr (hphrase s)"
      by blast+
    with that(2) h show ?thesis by simp
  qed
  with e h length_hexdigest set_hexdigest show ?thesis
    by blast
qed

theorem digest_of_phrase_witness:
  "hash_phrase (phrase_of (replicate 4 (str ''a''))) = Inr digest_a
   \<and> length digest_a = 64 \<and> set digest_a \<subseteq> set hexdigits"
proof -
  have "\<forall>c\<in>set (concat (replicate 4 (str ''a''))). is_scalar c"
    by (simp add: str_def is_scalar_def)
  from digest_of_phrase [OF this] show ?thesis
    by (auto simp: phrase_a hash_phrase_a)
qed





subsection \<open>The index of the symbol\<close>

lemma redraw_symbol_index:
  assumes r: "fst (locals w) = Inr (s, t)" and k: "k < length (pw_cap t)"
  shows "\<exists>w' t'. fst (locals w') = Inr (s, t') \<and> pw_cap t' = pw_cap t \<and> pi_sym t' = int k"
proof -
  from locals_Inr [OF r] obtain w1 w2 where s: "select w = (Inr s, w1)"
    and t: "transform (ch s) w1 = (Inr t, w2)"
    by blast
  from select_Inr [OF s] obtain content where src: "wordlist_txt w = Some content"
    and ne: "readlines content \<noteq> []"
    and ws: "words s = map (\<lambda>j. rstrip (readlines content ! (rng w j mod length (readlines content)))) [0 ..< 4]"
    and ph: "phrase s = phrase_of (words s)"
    and h: "hash_phrase (phrase s) = Inr (hphrase s)"
    and c: "ch s = map (\<lambda>j. hphrase s ! (rng w (j + 4) mod 64)) [0 ..< 15]"
    and w1: "w1 = w\<lparr>rng := \<lambda>i. rng w (i + 19)\<rparr>"
    by blast
  from transform_Inr [OF t]
  have ps: "positions (ch s) = Inr (pos t)" and pne: "pos t \<noteq> []"
    and pc: "pi_cap t = pos t ! (rng w1 0 mod length (pos t))"
    and cap: "capitalise (ch s) (pi_cap t) = Inr (pw_cap t)"
    by blast+
  define w' where "w' = w\<lparr>rng := (rng w)(20 := k)\<rparr>"
  define w1' where "w1' = w'\<lparr>rng := \<lambda>i. rng w' (i + 19)\<rparr>"
  have src': "wordlist_txt w' = Some content"
    by (simp add: w'_def src)
  have ws': "words s = map (\<lambda>j. rstrip (readlines content ! (rng w' j mod length (readlines content)))) [0 ..< 4]"
    unfolding ws by (rule map_cong) (auto simp: w'_def)
  have h': "hash_phrase (phrase_of (words s)) = Inr (hphrase s)"
    using h ph by simp
  have c': "map (\<lambda>j. hphrase s ! (rng w' (j + 4) mod 64)) [0 ..< 15] = ch s"
    unfolding c by (rule map_cong) (auto simp: w'_def)
  have s': "select w' = (Inr s, w1')"
    using select_run [OF src' ne ws' h'] by (simp add: c' ph [symmetric] w1'_def)
  have d: "rng w1' 0 = rng w1 0" "rng w1' 1 = k" "rng w1' (Suc 0) = k"
    by (simp_all add: w1'_def w'_def w1)
  have cap': "capitalise (ch s) (pos t ! (rng w1' 0 mod length (pos t))) = Inr (pw_cap t)"
    using cap by (simp add: d pc)
  have p: "pw_cap t \<noteq> []"
    using k by auto
  note t' = transform_run [OF ps pne cap' p]
  note l = locals_run [OF s' t']
  show ?thesis
    by (intro exI conjI, rule arg_cong [OF l, of fst, simplified]) (simp_all add: d k)
qed

text \<open>
  X3. In every successful run the index for the symbol is between 0 and the last index of
  the capitalised string (line 76 draws it with \<open>randint(0, len(pw) - 1)\<close>, so it is never
  the length), and every such index occurs in some run with the same selection and the
  same capitalised string. At an index below the last one the symbol is inserted there
  and no character is lost; at index 0 the symbol comes first.
\<close>

theorem symbol_index:
  assumes "fst (locals w) = Inr (s, t)"
  shows "0 \<le> pi_sym t \<and> pi_sym t \<le> len (pw_cap t) - 1
    \<and> (\<forall>k<length (pw_cap t).
          \<exists>w' t'. fst (locals w') = Inr (s, t') \<and> pw_cap t' = pw_cap t \<and> pi_sym t' = int k)
    \<and> (pi_sym t < len (pw_cap t) - 1 \<longrightarrow>
          pw t = take (nat (pi_sym t)) (pw_cap t) @ symbol t @ drop (nat (pi_sym t)) (pw_cap t))
    \<and> (pi_sym t = 0 \<longrightarrow> pw t = symbol t @ pw_cap t)"
proof -
  from run_facts [OF assms]
  have lp: "len (pw_cap t) = 15 - (if pi_cap t > 0 then 1 else 0)"
    and j: "0 \<le> pi_sym t" "pi_sym t \<le> len (pw_cap t) - 1"
    and q: "pw t = insert_symbol (pw_cap t) (pi_sym t) (symbol t)"
    by blast+
  have a: "pw t = take (nat (pi_sym t)) (pw_cap t) @ symbol t @ drop (nat (pi_sym t)) (pw_cap t)"
    if "pi_sym t < len (pw_cap t) - 1"
    unfolding q insert_symbol_eq [OF j] using that by simp
  have b: "pw t = symbol t @ pw_cap t" if "pi_sym t = 0"
  proof -
    have "pi_sym t < len (pw_cap t) - 1"
      using that lp by (simp split: if_splits)
    from a [OF this] that show ?thesis by simp
  qed
  from j a b redraw_symbol_index [OF assms] show ?thesis
    by blast
qed

theorem symbol_index_witness:
  "fst (locals (one_word [0,0,0,0, 0,1,2,3,4,5,6,7,8,9,10,11,12,13,14, 3, 14, 1])) =
     Inr (sel_a (str ''f8ebfaf3d51f88b''),
          \<lparr>pos = [0, 2, 0, 5, 0, 8, 0], pi_cap = 5, pw_cap = str ''f8ebAf3d51f88b'', pi_sym = 0,
           symbol = str ''-'', pw = str ''-f8ebAf3d51f88b''\<rparr>)
   \<and> (0::int) < len (str ''f8ebAf3d51f88b'') - 1
   \<and> str ''-f8ebAf3d51f88b'' = str ''-'' @ str ''f8ebAf3d51f88b''"
  using symbol_index [OF run_b] run_b by (simp add: len_def str_def)

text \<open>
  X4. When the index for the symbol is the last index of the capitalised string, line 80
  sets \<open>right\<close> to the empty string: the symbol takes the place of the last character, and
  the password is as long as the capitalised string.
\<close>

theorem symbol_at_last_index:
  assumes "fst (locals w) = Inr (s, t)" and "pi_sym t = len (pw_cap t) - 1"
  shows "pw t = butlast (pw_cap t) @ symbol t \<and> len (pw t) = len (pw_cap t)"
proof -
  from run_facts [OF assms(1)]
  have j: "0 \<le> pi_sym t" "pi_sym t \<le> len (pw_cap t) - 1"
    and y: "length (symbol t) = 1"
    and q: "pw t = insert_symbol (pw_cap t) (pi_sym t) (symbol t)"
    and lp: "len (pw_cap t) = 15 - (if pi_cap t > 0 then 1 else 0)"
    by blast+
  have n: "nat (pi_sym t) = length (pw_cap t) - 1"
    using assms(2) by (simp add: len_def)
  have "pw t = take (length (pw_cap t) - 1) (pw_cap t) @ symbol t"
    unfolding q insert_symbol_eq [OF j] using assms(2) n by simp
  then have p: "pw t = butlast (pw_cap t) @ symbol t"
    by (simp add: butlast_conv_take)
  have "pw_cap t \<noteq> []"
    using lp by (auto simp: len_def split: if_splits)
  then show ?thesis
    using p y by (simp add: len_def)
qed

theorem symbol_at_last_index_witness:
  "fst (locals (one_word [0,0,0,0, 0,1,2,3,4,5,6,7,8,9,10,11,12,13,14, 0, 14, 0])) =
     Inr (sel_a (str ''f8ebfaf3d51f88b''),
          \<lparr>pos = [0, 2, 0, 5, 0, 8, 0], pi_cap = 0, pw_cap = str ''F8ebfaf3d51f88b'', pi_sym = 14,
           symbol = str ''='', pw = str ''F8ebfaf3d51f88=''\<rparr>)
   \<and> (14::int) = len (str ''F8ebfaf3d51f88b'') - 1
   \<and> str ''F8ebfaf3d51f88='' = butlast (str ''F8ebfaf3d51f88b'') @ str ''=''"
  using symbol_at_last_index [OF run_e] run_e by (simp add: len_def str_def)

subsection \<open>Runs in which the code and the spec differ\<close>

text \<open>
  C1. Run A prints \<open>F888 8888 8888 8=\<close>: the password has 14 characters, not 16. The first
  character drawn is lost when the letter at index 1 is capitalised, and the last
  character of the capitalised string is lost when the symbol goes to index 13.
\<close>

theorem short_password:
  "fst (locals (one_word [0,0,0,0, 1,0,1,1,1,1,1,1,1,1,1,1,1,1,1, 0, 13, 0])) =
     Inr (sel_a (str ''8f8888888888888''),
          \<lparr>pos = [1], pi_cap = 1, pw_cap = str ''F8888888888888'', pi_sym = 13,
           symbol = str ''='', pw = str ''F888888888888=''\<rparr>)
   \<and> length (str ''F888888888888='') = 14
   \<and> fst (pwgen (one_word [0,0,0,0, 1,0,1,1,1,1,1,1,1,1,1,1,1,1,1, 0, 13, 0])) = Inr ()
   \<and> stdout (snd (pwgen (one_word [0,0,0,0, 1,0,1,1,1,1,1,1,1,1,1,1,1,1,1, 0, 13, 0])))
       = str ''F888 8888 8888 8='' @ [10]"
  using run_a pwgen_success [OF run_a] by (simp add: display_a one_word_def) (simp add: str_def)

text \<open>
  C2. In run E the index drawn for the symbol is 14, the last index of the capitalised
  string \<open>F8ebfaf3d51f88b\<close> and the largest that \<open>randint(0, len(pw) - 1)\<close> can give. The
  symbol becomes the last character of the password, but it is not appended: the last
  character of the capitalised string is lost, and the password has 15 characters as the
  capitalised string has.
\<close>

theorem last_index_loses_a_character:
  "fst (locals (one_word [0,0,0,0, 0,1,2,3,4,5,6,7,8,9,10,11,12,13,14, 0, 14, 0])) =
     Inr (sel_a (str ''f8ebfaf3d51f88b''),
          \<lparr>pos = [0, 2, 0, 5, 0, 8, 0], pi_cap = 0, pw_cap = str ''F8ebfaf3d51f88b'', pi_sym = 14,
           symbol = str ''='', pw = str ''F8ebfaf3d51f88=''\<rparr>)
   \<and> len (str ''F8ebfaf3d51f88b'') - 1 = 14
   \<and> str ''F8ebfaf3d51f88='' \<noteq> str ''F8ebfaf3d51f88b'' @ str ''=''
   \<and> length (str ''F8ebfaf3d51f88='') = length (str ''F8ebfaf3d51f88b'')"
  using run_e by (simp add: len_def str_def)

text \<open>
  C3. In run B the letter at index 5 of \<open>f8ebfaf3d51f88b\<close> is capitalised. Replacing it in
  place would give \<open>f8ebfAf3d51f88b\<close>; the code gives \<open>f8ebAf3d51f88b\<close>, one character
  shorter: the character at index 4 is gone.
\<close>

theorem capitalise_drops_a_character:
  "fst (locals (one_word [0,0,0,0, 0,1,2,3,4,5,6,7,8,9,10,11,12,13,14, 3, 14, 1])) =
     Inr (sel_a (str ''f8ebfaf3d51f88b''),
          \<lparr>pos = [0, 2, 0, 5, 0, 8, 0], pi_cap = 5, pw_cap = str ''f8ebAf3d51f88b'', pi_sym = 0,
           symbol = str ''-'', pw = str ''-f8ebAf3d51f88b''\<rparr>)
   \<and> capitalise (str ''f8ebfaf3d51f88b'') 5 = Inr (str ''f8ebAf3d51f88b'')
   \<and> (str ''f8ebfaf3d51f88b'') [5 := upper_char (str ''f8ebfaf3d51f88b'' ! 5)] = str ''f8ebfAf3d51f88b''
   \<and> length (str ''f8ebAf3d51f88b'') = 14"
proof -
  have "capitalise (str ''f8ebfaf3d51f88b'') 5 = Inr (str ''f8ebAf3d51f88b'')"
    by code_simp
  moreover have "(str ''f8ebfaf3d51f88b'') [5 := upper_char (str ''f8ebfaf3d51f88b'' ! 5)]
      = str ''f8ebfAf3d51f88b''"
    by code_simp
  moreover have "length (str ''f8ebAf3d51f88b'') = 14"
    by (simp add: str_def)
  ultimately show ?thesis
    using run_b by simp
qed

text \<open>
  C4. In run C the only letter is the last character drawn. It is capitalised, and then
  lost when the symbol goes to the last index: the password \<open>8888888888888=\<close> has no
  uppercase character.
\<close>

theorem no_uppercase_left:
  "fst (locals (one_word [0,0,0,0, 1,1,1,1,1,1,1,1,1,1,1,1,1,1,0, 0, 13, 0])) =
     Inr (sel_a (str ''88888888888888f''),
          \<lparr>pos = [14], pi_cap = 14, pw_cap = str ''8888888888888F'', pi_sym = 13,
           symbol = str ''='', pw = str ''8888888888888=''\<rparr>)
   \<and> filter isupper_char (str ''8888888888888='') = []"
proof -
  have "filter isupper_char (str ''8888888888888='') = []"
    by code_simp
  with run_c show ?thesis by simp
qed

text \<open>
  C5. In run D the fifteen characters drawn are all \<open>a\<close>, so all fifteen positions hold an
  eligible character, but every entry of \<open>pos\<close> is 0, the first position of \<open>a\<close>: whatever
  is drawn, the letter at index 0 is capitalised.
\<close>

theorem only_first_occurrence:
  "fst (locals (one_word [0,0,0,0, 5,5,5,5,5,5,5,5,5,5,5,5,5,5,5, 7, 3, 2])) =
    Inr (sel_a (str ''aaaaaaaaaaaaaaa''),
         \<lparr>pos = [0, 0, 0, 0, 0, 0, 0, 0, 0, 0, 0, 0, 0, 0, 0], pi_cap = 0,
          pw_cap = str ''Aaaaaaaaaaaaaaa'', pi_sym = 3,
          symbol = str ''!'', pw = str ''Aaa!aaaaaaaaaaaa''\<rparr>)
   \<and> filter (\<lambda>i. eligible (str ''aaaaaaaaaaaaaaa'' ! i)) [0 ..< 15] = [0 ..< 15]
   \<and> positions (str ''aaaaaaaaaaaaaaa'') = Inr (replicate 15 0)"
proof -
  have "filter (\<lambda>i. eligible (str ''aaaaaaaaaaaaaaa'' ! i)) [0 ..< 15] = [0 ..< 15]"
    by code_simp
  moreover have "positions (str ''aaaaaaaaaaaaaaa'') = Inr (replicate 15 0)"
    by code_simp
  ultimately show ?thesis
    using run_d by simp
qed

subsection \<open>What is printed, and which characters\<close>

text \<open>
  X1. A run prints all or nothing: either it succeeds and standard output gains exactly
  one line, the display of the password, or it fails and standard output is unchanged.
\<close>

theorem all_or_nothing:
  "(\<exists>s t. fst (locals w) = Inr (s, t) \<and> fst (pwgen w) = Inr ()
       \<and> stdout (snd (pwgen w)) = stdout w @ display (pw t) @ [10])
   \<or> (\<exists>e. fst (pwgen w) = Inl e \<and> stdout (snd (pwgen w)) = stdout w)"
proof (cases "fst (locals w)")
  case (Inl e)
  then show ?thesis
    using pwgen_failure by blast
next
  case (Inr st)
  obtain s t where "st = (s, t)"
    by (cases st)
  with Inr show ?thesis
    using pwgen_success by blast
qed

lemma hexdigit_plain: "c \<in> set hexdigits \<Longrightarrow> \<not> isupper_char c \<and> c \<notin> set symbols"
  by (auto simp: hexdigits_def symbols_def str_def isupper_char_def)

lemma capl_range: "c \<in> set capl \<Longrightarrow> 97 \<le> c \<and> c \<le> 122"
  by (auto simp: capl_def str_def)

lemma symbols_range: "c \<in> set symbols \<Longrightarrow> c < 65 \<or> 90 < c"
  by (auto simp: symbols_def str_def)

lemma capl_upper:
  assumes "c \<in> set capl"
  shows "isupper_char (upper_char c) \<and> lower_char (upper_char c) = c \<and> upper_char c \<notin> set symbols"
proof -
  have r: "97 \<le> c" "c \<le> 122"
    using capl_range [OF assms] by simp_all
  then have u: "upper_char c = c - 32" "65 \<le> c - 32" "c - 32 \<le> 90"
    by (simp_all add: upper_char_def)
  have "upper_char c \<notin> set symbols"
    using symbols_range [of "upper_char c"] u by auto
  with r u show ?thesis
    by (simp add: isupper_char_def lower_char_def)
qed

lemma symbol_plain: "c \<in> set symbols \<Longrightarrow> \<not> isupper_char c"
  by (auto simp: symbols_def str_def isupper_char_def)

lemma filter_take_le: "length (filter P (take n xs)) \<le> length (filter P xs)"
proof -
  have "length (filter P xs) = length (filter P (take n xs)) + length (filter P (drop n xs))"
    by (metis append_take_drop_id filter_append length_append)
  then show ?thesis by simp
qed

text \<open>
  X2. In every successful run the password holds exactly one character of the symbol
  set, the one inserted; at most one uppercase character, which lowercased is in \<open>capl\<close>;
  and every other character is a lowercase hexadecimal digit.
\<close>

theorem password_characters:
  assumes "fst (locals w) = Inr (s, t)"
  shows "filter (\<lambda>c. c \<in> set symbols) (pw t) = symbol t \<and> length (symbol t) = 1
    \<and> length (filter isupper_char (pw t)) \<le> 1
    \<and> (\<forall>c\<in>set (pw t). isupper_char c \<longrightarrow> lower_char c \<in> set capl)
    \<and> (\<forall>c\<in>set (pw t). c \<in> set hexdigits \<or> isupper_char c \<or> c \<in> set symbols)"
proof -
  from locals_Inr [OF assms] obtain w1 w2 where sel: "select w = (Inr s, w1)"
    by blast
  from run_facts [OF assms]
  have l: "length (ch s) = 15" and i: "0 \<le> pi_cap t" "pi_cap t < 15"
    and el: "eligible (ch s ! nat (pi_cap t))"
    and cap: "capitalise (ch s) (pi_cap t) = Inr (pw_cap t)"
    and j: "0 \<le> pi_sym t" "pi_sym t \<le> len (pw_cap t) - 1"
    and y1: "length (symbol t) = 1" and y2: "set (symbol t) \<subseteq> set symbols"
    and q: "pw t = insert_symbol (pw_cap t) (pi_sym t) (symbol t)"
    by blast+
  have hex: "set (ch s) \<subseteq> set hexdigits"
    using length_ch [OF sel] by simp
  define u where "u = upper_char (ch s ! nat (pi_cap t))"
  define a where "a = (if pi_cap t > 0 then take (nat (pi_cap t - 1)) (ch s) else [])"
  define b where "b = drop (nat (pi_cap t + 1)) (ch s)"
  have il: "pi_cap t < len (ch s)"
    using i l by (simp add: len_def)
  have p: "pw_cap t = a @ [u] @ b"
    using cap capitalise_eq [OF i(1) il] by (simp add: a_def b_def u_def)
  have ab: "set a \<subseteq> set hexdigits" "set b \<subseteq> set hexdigits"
    using hex set_take_subset [of "nat (pi_cap t - 1)" "ch s"]
      set_drop_subset [of "nat (pi_cap t + 1)" "ch s"]
    by (auto simp: a_def b_def)
  have u: "isupper_char u" "lower_char u \<in> set capl" "u \<notin> set symbols"
    using capl_upper [of "ch s ! nat (pi_cap t)"] el by (simp_all add: u_def eligible_def)
  have fa: "filter isupper_char a = []" "filter (\<lambda>c. c \<in> set symbols) a = []"
    and fb: "filter isupper_char b = []" "filter (\<lambda>c. c \<in> set symbols) b = []"
    using ab hexdigit_plain by (auto simp: filter_empty_conv)
  have up: "filter isupper_char (pw_cap t) = [u]"
    and sp: "filter (\<lambda>c. c \<in> set symbols) (pw_cap t) = []"
    using u by (simp_all add: p fa fb)
  have cs: "set (pw_cap t) \<subseteq> set hexdigits \<union> {u}"
    using ab by (auto simp: p)
  define r where "r = (if pi_sym t < len (pw_cap t) - 1 then drop (nat (pi_sym t)) (pw_cap t) else [])"
  have pw: "pw t = take (nat (pi_sym t)) (pw_cap t) @ symbol t @ r"
    unfolding q insert_symbol_eq [OF j] r_def by simp
  have rs: "set r \<subseteq> set (pw_cap t)"
    using set_drop_subset [of "nat (pi_sym t)" "pw_cap t"] by (auto simp: r_def)
  have ts: "set (take (nat (pi_sym t)) (pw_cap t)) \<subseteq> set (pw_cap t)"
    by (rule set_take_subset)
  have nosym: "filter (\<lambda>c. c \<in> set symbols) (take (nat (pi_sym t)) (pw_cap t)) = []"
    "filter (\<lambda>c. c \<in> set symbols) r = []"
    using sp ts rs by (auto simp: filter_empty_conv)
  have ysym: "filter (\<lambda>c. c \<in> set symbols) (symbol t) = symbol t"
    using y2 by (auto simp: filter_id_conv)
  have yup: "filter isupper_char (symbol t) = []"
    using y2 symbol_plain by (auto simp: filter_empty_conv)
  have one: "filter (\<lambda>c. c \<in> set symbols) (pw t) = symbol t"
    by (simp add: pw nosym ysym)
  have "length (filter isupper_char (take (nat (pi_sym t)) (pw_cap t))) + length (filter isupper_char r)
      \<le> length (filter isupper_char (pw_cap t))"
  proof (cases "pi_sym t < len (pw_cap t) - 1")
    case True
    have "length (filter isupper_char (pw_cap t)) =
        length (filter isupper_char (take (nat (pi_sym t)) (pw_cap t)))
        + length (filter isupper_char (drop (nat (pi_sym t)) (pw_cap t)))"
      by (metis append_take_drop_id filter_append length_append)
    with True show ?thesis by (simp add: r_def)
  next
    case False
    then show ?thesis by (simp add: r_def filter_take_le)
  qed
  then have most: "length (filter isupper_char (pw t)) \<le> 1"
    by (simp add: pw yup up)
  have sets: "set (pw t) \<subseteq> set hexdigits \<union> {u} \<union> set symbols"
    using cs ts rs y2 by (auto simp: pw)
  have low: "lower_char c \<in> set capl" if "c \<in> set (pw t)" "isupper_char c" for c
    using that sets u hexdigit_plain symbol_plain by blast
  have cls: "c \<in> set hexdigits \<or> isupper_char c \<or> c \<in> set symbols" if "c \<in> set (pw t)" for c
    using that sets u by blast
  from one y1 most low cls show ?thesis
    by blast
qed

theorem password_characters_witness:
  "fst (locals (one_word [0,0,0,0, 5,5,5,5,5,5,5,5,5,5,5,5,5,5,5, 7, 3, 2])) =
    Inr (sel_a (str ''aaaaaaaaaaaaaaa''),
         \<lparr>pos = [0, 0, 0, 0, 0, 0, 0, 0, 0, 0, 0, 0, 0, 0, 0], pi_cap = 0,
          pw_cap = str ''Aaaaaaaaaaaaaaa'', pi_sym = 3,
          symbol = str ''!'', pw = str ''Aaa!aaaaaaaaaaaa''\<rparr>)
   \<and> filter (\<lambda>c. c \<in> set symbols) (str ''Aaa!aaaaaaaaaaaa'') = str ''!''
   \<and> length (filter isupper_char (str ''Aaa!aaaaaaaaaaaa'')) \<le> 1"
  using password_characters [OF run_d] run_d by simp

end
